theory Spec2Isabelle
  imports Main "HOL-Library.Word"
begin

section \<open>The scan stream reader (aws/dynamo/stream/DynamoScanReader.js)\<close>

text \<open>
  A page returned by \<^verbatim>\<open>provider.scanChunk\<close>: the items of the page and the continuation
  cursor \<^verbatim>\<open>startKey\<close>. The reader only tests the cursor for truthiness
  (\<^verbatim>\<open>!this._previous.startKey\<close>), so an absent or falsy cursor is \<open>None\<close>.
\<close>

record ('a, 'k) chunk =
  results :: "'a list"
  startKey :: "'k option"

text \<open>
  What the reader does to the outside world, in the order it does it: a call of
  \<^verbatim>\<open>scanChunk(scan, previous)\<close> (with the argument it passes), \<^verbatim>\<open>this.push(batch)\<close>,
  \<^verbatim>\<open>this.push(null)\<close> and \<^verbatim>\<open>this.emit('error', e)\<close>.
\<close>

datatype ('a, 'k, 'e) event =
    ScanChunk "('a, 'k) chunk option"
  | Push "'a list"
  | PushNull
  | EmitError 'e

text \<open>
  The four fields set by the constructor (\<^verbatim>\<open>_previous\<close>, \<^verbatim>\<open>_scanned\<close>, \<^verbatim>\<open>_reading\<close>,
  \<^verbatim>\<open>_error\<close>), and the three parts of the JavaScript runtime the reader talks to: the
  promises of \<^verbatim>\<open>scanChunk\<close> calls that have not settled yet (each with the argument of
  its call), the callbacks queued by \<^verbatim>\<open>process.nextTick\<close> (each with the error it will
  emit), and the effects observed so far.
\<close>

record ('a, 'k, 'e) reader =
  previous :: "('a, 'k) chunk option"
  scanned :: nat
  reading :: bool
  error :: bool
  pending :: "('a, 'k) chunk option list"
  ticks :: "'e list"
  trace :: "('a, 'k, 'e) event list"

definition constructor :: "('a, 'k, 'e) reader" where
  "constructor =
     \<lparr>previous = None, scanned = 0, reading = False, error = False,
      pending = [], ticks = [], trace = []\<rparr>"

text \<open>
  The closure \<^verbatim>\<open>scanChunkRecursive\<close> up to the point where it returns: either the
  previous page had no cursor, and the stream is ended, or \<^verbatim>\<open>scanChunk\<close> is called with
  the previous page and its promise is left pending.
\<close>

definition scanChunkRecursive :: "('a, 'k, 'e) reader \<Rightarrow> ('a, 'k, 'e) reader" where
  "scanChunkRecursive r =
     (if previous r \<noteq> None \<and> startKey (the (previous r)) = None
      then r\<lparr>reading := False, trace := trace r @ [PushNull]\<rparr>
      else r\<lparr>pending := pending r @ [previous r],
              trace := trace r @ [ScanChunk (previous r)]\<rparr>)"

text \<open>The method \<^verbatim>\<open>_read(size)\<close>: the two guards, then the fetch loop is entered.\<close>

definition read :: "('a, 'k, 'e) reader \<Rightarrow> ('a, 'k, 'e) reader" where
  "read r =
     (if reading r then r
      else if error r then r
      else scanChunkRecursive (r\<lparr>reading := True\<rparr>))"

text \<open>
  The \<^verbatim>\<open>then\<close> callback of the promise, run with the page \<open>c\<close> the provider resolved
  to. \<open>accepted\<close> is what \<^verbatim>\<open>this.push(results.results)\<close> returns; the push happens
  only for a non-empty page.
\<close>

definition onResults ::
  "('a, 'k) chunk \<Rightarrow> bool \<Rightarrow> ('a, 'k, 'e) reader \<Rightarrow> ('a, 'k, 'e) reader" where
  "onResults c accepted r =
     (let r1 = r\<lparr>previous := Some c\<rparr>;
          r2 = (if length (results c) \<noteq> 0
                then r1\<lparr>scanned := scanned r1 + length (results c),
                         reading := accepted,
                         trace := trace r1 @ [Push (results c)]\<rparr>
                else r1)
      in if reading r2 then scanChunkRecursive r2 else r2)"

text \<open>
  The \<^verbatim>\<open>catch\<close> callback, run with the error \<open>e\<close> the promise rejected with: the flags,
  \<^verbatim>\<open>push(null)\<close>, and the emission of the error left to \<^verbatim>\<open>process.nextTick\<close>.
\<close>

definition onError :: "'e \<Rightarrow> ('a, 'k, 'e) reader \<Rightarrow> ('a, 'k, 'e) reader" where
  "onError e r =
     r\<lparr>reading := False, error := True,
       trace := trace r @ [PushNull], ticks := ticks r @ [e]\<rparr>"

text \<open>
  What can happen to a reader: the stream asks for data (\<^verbatim>\<open>_read\<close>), the oldest pending
  promise resolves or rejects, or the oldest queued tick runs. Settling a promise when
  none is pending, or running a tick when none is queued, is not possible and changes
  nothing.
\<close>

datatype ('a, 'k, 'e) action =
    Pull
  | Resolve "('a, 'k) chunk" bool
  | Reject 'e
  | Tick

fun step :: "('a, 'k, 'e) reader \<Rightarrow> ('a, 'k, 'e) action \<Rightarrow> ('a, 'k, 'e) reader" where
  "step r Pull = read r"
| "step r (Resolve c accepted) =
     (case pending r of
        [] \<Rightarrow> r
      | p # ps \<Rightarrow> onResults c accepted (r\<lparr>pending := ps\<rparr>))"
| "step r (Reject e) =
     (case pending r of
        [] \<Rightarrow> r
      | p # ps \<Rightarrow> onError e (r\<lparr>pending := ps\<rparr>))"
| "step r Tick =
     (case ticks r of
        [] \<Rightarrow> r
      | e # es \<Rightarrow> r\<lparr>ticks := es, trace := trace r @ [EmitError e]\<rparr>)"

definition run :: "('a, 'k, 'e) action list \<Rightarrow> ('a, 'k, 'e) reader \<Rightarrow> ('a, 'k, 'e) reader" where
  "run acts r = foldl step r acts"

text \<open>
  The states of the specification, read off the fields: the reader has no field of its
  own for the end of the sequence, so Exhausted is told from Paused by the
  \<^verbatim>\<open>push(null)\<close> already made.
\<close>

datatype phase = Idle | Reading | Paused | Exhausted | Errored

definition ended :: "('a, 'k, 'e) reader \<Rightarrow> bool" where
  "ended r = (PushNull \<in> set (trace r))"

definition phase_of :: "('a, 'k, 'e) reader \<Rightarrow> phase" where
  "phase_of r =
     (if error r then Errored
      else if reading r then Reading
      else case previous r of
             None \<Rightarrow> Idle
           | Some c \<Rightarrow> if startKey c = None \<and> ended r then Exhausted else Paused)"

text \<open>
  The environment of a whole scan. The provider is a script of outcomes, one for each
  \<^verbatim>\<open>scanChunk\<close> call in the order the calls are made (\<open>Inl\<close> a rejection, \<open>Inr\<close> a
  page). The stream's answer to a push is a function of the effects so far. \<open>settle\<close>
  lets the pending promises settle, one outcome of the script each, until no promise is
  pending; \<open>flush\<close> runs the queued ticks.
\<close>

fun settle ::
  "(('a, 'k, 'e) event list \<Rightarrow> bool) \<Rightarrow> ('e + ('a, 'k) chunk) list \<Rightarrow> ('a, 'k, 'e) reader
     \<Rightarrow> ('a, 'k, 'e) reader \<times> ('e + ('a, 'k) chunk) list" where
  "settle accepts [] r = (r, [])"
| "settle accepts (x # xs) r =
     (if pending r = [] then (r, x # xs)
      else settle accepts xs
             (step r (case x of Inl e \<Rightarrow> Reject e | Inr c \<Rightarrow> Resolve c (accepts (trace r)))))"

definition flush :: "('a, 'k, 'e) reader \<Rightarrow> ('a, 'k, 'e) reader" where
  "flush r = run (replicate (length (ticks r)) Tick) r"

text \<open>
  A consumer that asks for data up to \<open>n\<close> times. A Node.js readable stream does not call
  \<^verbatim>\<open>_read\<close> again once \<^verbatim>\<open>push(null)\<close> has been made, so the consumer stops there.
\<close>

fun consume ::
  "nat \<Rightarrow> (('a, 'k, 'e) event list \<Rightarrow> bool) \<Rightarrow> ('e + ('a, 'k) chunk) list \<Rightarrow> ('a, 'k, 'e) reader
     \<Rightarrow> ('a, 'k, 'e) reader" where
  "consume 0 accepts script r = r"
| "consume (Suc n) accepts script r =
     (if ended r then r
      else case settle accepts script (read r) of
             (r', rest) \<Rightarrow> consume n accepts rest (flush r'))"

definition isEmitError :: "('a, 'k, 'e) event \<Rightarrow> bool" where
  "isEmitError ev = (case ev of EmitError e \<Rightarrow> True | _ \<Rightarrow> False)"

definition isScanChunk :: "('a, 'k, 'e) event \<Rightarrow> bool" where
  "isScanChunk ev = (case ev of ScanChunk p \<Rightarrow> True | _ \<Rightarrow> False)"

text \<open>What holds of every reader that the constructor and the actions can produce.\<close>

definition reader_inv :: "('a, 'k, 'e) reader \<Rightarrow> bool" where
  "reader_inv r =
     (length (pending r) \<le> 1 \<and>
      (pending r \<noteq> [] \<longrightarrow> reading r \<and> \<not> error r) \<and>
      (error r \<longrightarrow> \<not> reading r) \<and>
      (ticks r \<noteq> [] \<longrightarrow> error r) \<and>
      (ended r \<longrightarrow> pending r = [] \<and>
         (error r \<or> (previous r \<noteq> None \<and> startKey (the (previous r)) = None))) \<and>
      Push [] \<notin> set (trace r) \<and>
      length (ticks r) + length (filter isEmitError (trace r)) = (if error r then 1 else 0))"

section \<open>The table schema (class Table)\<close>

text \<open>
  Modelled from the spec: the classes \<^verbatim>\<open>Key\<close>, \<^verbatim>\<open>Index\<close>, \<^verbatim>\<open>Attribute\<close>, \<^verbatim>\<open>Encryptor\<close>,
  \<^verbatim>\<open>ProvisionedThroughput\<close> and the enumerations are not among the sources; their fields
  are those of the data model of the specification, and \<^verbatim>\<open>Table\<close> reads
  \<^verbatim>\<open>k.keyType\<close>, \<^verbatim>\<open>k.attribute.name\<close>, \<^verbatim>\<open>i.name\<close> and \<^verbatim>\<open>i.type\<close>.
\<close>

datatype KeyType = HASH | RANGE

datatype IndexType = GLOBAL_SECONDARY | LOCAL_SECONDARY

datatype DataType = STRING | NUMBER | BINARY | BOOLEAN

datatype EncryptionType = AES_192 | AES_256

record Encryptor =
  encryptor_type :: EncryptionType
  encryptor_key :: string

record Attribute =
  attribute_name :: string
  attribute_dataType :: DataType
  attribute_encryptor :: "Encryptor option"

record Key =
  attribute :: Attribute
  keyType :: KeyType

record Index =
  index_name :: string
  index_keys :: "Key list"
  index_type :: IndexType

record ProvisionedThroughput =
  throughput_read :: int
  throughput_write :: int

text \<open>
  JavaScript does not type the constructor's arguments: an element of an array is an
  instance of \<^verbatim>\<open>Key\<close>, an instance of \<^verbatim>\<open>Index\<close> or some other value; the value given
  for the keys or the indices is an array or not (\<open>NotArray\<close> stands for a truthy value
  that is neither an array nor iterable); the name is a string or not (\<open>None\<close>); the
  throughput is an object or \<^verbatim>\<open>undefined\<close> (\<open>None\<close>).
\<close>

datatype element = KeyInstance Key | IndexInstance Index | OtherValue

datatype jsarray = Array "element list" | NotArray

record Table =
  table_name :: "string option"
  table_keys :: jsarray
  table_indices :: jsarray
  table_provisionedThroughput :: "ProvisionedThroughput option"

text \<open>
  The constructor: \<^verbatim>\<open>keys || [ ]\<close> and \<^verbatim>\<open>indicies || [ ]\<close> replace a falsy argument
  (\<open>None\<close> here) by the empty array.
\<close>

definition orEmpty :: "jsarray option \<Rightarrow> jsarray" where
  "orEmpty a = (case a of None \<Rightarrow> Array [] | Some v \<Rightarrow> v)"

definition newTable ::
  "string option \<Rightarrow> jsarray option \<Rightarrow> jsarray option \<Rightarrow> ProvisionedThroughput option \<Rightarrow> Table" where
  "newTable name keys indicies provisionedThroughput =
     \<lparr>table_name = name, table_keys = orEmpty keys, table_indices = orEmpty indicies,
      table_provisionedThroughput = provisionedThroughput\<rparr>"

text \<open>
  The functions \<^verbatim>\<open>Table\<close> calls that are not among the sources, taken as parameters:
  \<^verbatim>\<open>array.unique\<close> of the library \<^verbatim>\<open>common/lang/array\<close> (\<open>unique\<close> is the truthiness of
  what it returns, which is all that \<^verbatim>\<open>!array.unique(...)\<close> reads), the \<^verbatim>\<open>validate\<close>
  methods of keys, indices and throughput (\<open>True\<close> when the method returns, \<open>False\<close>
  when it throws) and the four conversions to the wire format, whose results are objects
  of some type \<open>'s\<close>.
\<close>

record 's methods =
  unique :: "string list \<Rightarrow> bool"
  Key_validate :: "Key \<Rightarrow> bool"
  Index_validate :: "Index \<Rightarrow> bool"
  ProvisionedThroughput_validate :: "ProvisionedThroughput \<Rightarrow> bool"
  toAttributeSchema :: "Attribute \<Rightarrow> 's"
  toKeySchema :: "Key \<Rightarrow> 's"
  toIndexSchema :: "Index \<Rightarrow> 's"
  toProvisionedThroughputSchema :: "ProvisionedThroughput \<Rightarrow> 's"

text \<open>
  What \<^verbatim>\<open>array.unique\<close> does in the library: it returns a new array with the distinct
  items of its argument, each at its first occurrence. The result is an array, and an
  array is an object, truthy whatever it holds, also when it is empty.
\<close>

fun array_unique :: "'a list \<Rightarrow> 'a list" where
  "array_unique [] = []"
| "array_unique (x # xs) = x # array_unique (filter (\<lambda>y. y \<noteq> x) xs)"

definition truthy_array :: "'a list \<Rightarrow> bool" where
  "truthy_array a = True"

text \<open>The errors of \<^verbatim>\<open>validate\<close>, one for each \<^verbatim>\<open>throw\<close> in the order of the source.\<close>

datatype failure =
    TableNameInvalid
  | KeysNotArray
  | KeysNotKeyInstances
  | NotOneHashKey
  | KeyNamesNotUnique
  | IndicesNotArray
  | IndicesNotIndexInstances
  | IndexNamesNotUnique
  | KeyInvalid
  | IndexInvalid
  | ThroughputInvalid
  | TypeError

definition isArray :: "jsarray \<Rightarrow> bool" where
  "isArray a = (case a of Array xs \<Rightarrow> True | NotArray \<Rightarrow> False)"

definition elements :: "jsarray \<Rightarrow> element list" where
  "elements a = (case a of Array xs \<Rightarrow> xs | NotArray \<Rightarrow> [])"

definition isKey :: "element \<Rightarrow> bool" where
  "isKey x = (case x of KeyInstance k \<Rightarrow> True | _ \<Rightarrow> False)"

definition isIndex :: "element \<Rightarrow> bool" where
  "isIndex x = (case x of IndexInstance i \<Rightarrow> True | _ \<Rightarrow> False)"

text \<open>
  The keys and the indices the methods map and filter over; they are read only after
  the \<^verbatim>\<open>instanceof\<close> checks have passed, when every element is one.
\<close>

fun keyInstances :: "element list \<Rightarrow> Key list" where
  "keyInstances [] = []"
| "keyInstances (KeyInstance k # xs) = k # keyInstances xs"
| "keyInstances (x # xs) = keyInstances xs"

fun indexInstances :: "element list \<Rightarrow> Index list" where
  "indexInstances [] = []"
| "indexInstances (IndexInstance i # xs) = i # indexInstances xs"
| "indexInstances (x # xs) = indexInstances xs"

definition keysOf :: "Table \<Rightarrow> Key list" where
  "keysOf t = keyInstances (elements (table_keys t))"

definition indicesOf :: "Table \<Rightarrow> Index list" where
  "indicesOf t = indexInstances (elements (table_indices t))"

definition validate :: "'s methods \<Rightarrow> Table \<Rightarrow> failure + unit" where
  "validate m t =
     (if (case table_name t of None \<Rightarrow> True | Some n \<Rightarrow> length n < 1) then Inl TableNameInvalid
      else if \<not> isArray (table_keys t) then Inl KeysNotArray
      else if \<not> list_all isKey (elements (table_keys t)) then Inl KeysNotKeyInstances
      else if length (filter (\<lambda>k. keyType k = HASH) (keysOf t)) \<noteq> 1 then Inl NotOneHashKey
      else if \<not> unique m (map (\<lambda>k. attribute_name (attribute k)) (keysOf t))
        then Inl KeyNamesNotUnique
      else if \<not> isArray (table_indices t) then Inl IndicesNotArray
      else if \<not> list_all isIndex (elements (table_indices t)) then Inl IndicesNotIndexInstances
      else if \<not> unique m (map index_name (indicesOf t)) then Inl IndexNamesNotUnique
      else if \<not> list_all (Key_validate m) (keysOf t) then Inl KeyInvalid
      else if \<not> list_all (Index_validate m) (indicesOf t) then Inl IndexInvalid
      else case table_provisionedThroughput t of
             None \<Rightarrow> Inl TypeError
           | Some p \<Rightarrow> if ProvisionedThroughput_validate m p then Inr () else Inl ThroughputInvalid)"

text \<open>
  The invariant of the specification's list (section 3) that each error names; a
  \<^verbatim>\<open>TypeError\<close> names none (\<open>0\<close>).
\<close>

fun invariant_of :: "failure \<Rightarrow> nat" where
  "invariant_of TableNameInvalid = 1"
| "invariant_of KeysNotArray = 2"
| "invariant_of KeysNotKeyInstances = 2"
| "invariant_of NotOneHashKey = 3"
| "invariant_of KeyNamesNotUnique = 4"
| "invariant_of IndicesNotArray = 5"
| "invariant_of IndicesNotIndexInstances = 5"
| "invariant_of IndexNamesNotUnique = 5"
| "invariant_of KeyInvalid = 6"
| "invariant_of IndexInvalid = 6"
| "invariant_of ThroughputInvalid = 7"
| "invariant_of TypeError = 0"

text \<open>
  The object \<^verbatim>\<open>toTableSchema\<close> returns. The two index fields are set only under their
  \<^verbatim>\<open>if\<close>: \<open>None\<close> is a field that was never assigned.
\<close>

record 's TableSchema =
  TableName :: string
  AttributeDefinitions :: "'s list"
  KeySchema :: "'s list"
  ProvisionedThroughputSchema :: 's
  GlobalSecondaryIndexes :: "'s list option"
  LocalSecondaryIndexes :: "'s list option"

definition toTableSchema :: "'s methods \<Rightarrow> Table \<Rightarrow> failure + 's TableSchema" where
  "toTableSchema m t =
     (case validate m t of
        Inl e \<Rightarrow> Inl e
      | Inr u \<Rightarrow>
          (case (table_name t, table_provisionedThroughput t) of
             (Some n, Some p) \<Rightarrow>
               (let globalIndicies = filter (\<lambda>i. index_type i = GLOBAL_SECONDARY) (indicesOf t);
                    localIndicies = filter (\<lambda>i. index_type i = LOCAL_SECONDARY) (indicesOf t)
                in Inr \<lparr>TableName = n,
                        AttributeDefinitions = map (\<lambda>k. toAttributeSchema m (attribute k)) (keysOf t),
                        KeySchema = map (toKeySchema m) (keysOf t),
                        ProvisionedThroughputSchema = toProvisionedThroughputSchema m p,
                        GlobalSecondaryIndexes =
                          (if length globalIndicies \<noteq> 0
                           then Some (map (toIndexSchema m) globalIndicies) else None),
                        LocalSecondaryIndexes =
                          (if length localIndicies \<noteq> 0
                           then Some (map (toIndexSchema m) localIndicies) else None)\<rparr>)
           | _ \<Rightarrow> Inl TypeError))"

subsection \<open>The table as an object: arrays in a store\<close>

text \<open>
  A JavaScript array is an object reached through a reference, and two references to one
  array see each other's writes. The store holds the arrays allocated so far, the address
  of an array being its position; a table object holds a reference for \<^verbatim>\<open>_keys\<close> and one
  for \<^verbatim>\<open>_indices\<close> (or a value that is not an array).
\<close>

type_synonym store = "element list list"

datatype reference = Address nat | NoArray

record TableObject =
  object_name :: "string option"
  object_keys :: reference
  object_indices :: reference
  object_provisionedThroughput :: "ProvisionedThroughput option"

definition deref :: "store \<Rightarrow> reference \<Rightarrow> jsarray" where
  "deref h r =
     (case r of
        Address a \<Rightarrow> if a < length h then Array (h ! a) else NotArray
      | NoArray \<Rightarrow> NotArray)"

text \<open>What the methods of the table read through its references.\<close>

definition contents :: "store \<Rightarrow> TableObject \<Rightarrow> Table" where
  "contents h obj =
     \<lparr>table_name = object_name obj,
      table_keys = deref h (object_keys obj),
      table_indices = deref h (object_indices obj),
      table_provisionedThroughput = object_provisionedThroughput obj\<rparr>"

text \<open>
  The spread \<^verbatim>\<open>[...a]\<close>: a new array with the elements of \<open>a\<close>, at a new address; a
  \<^verbatim>\<open>TypeError\<close> when \<open>a\<close> is not iterable.
\<close>

definition spread :: "store \<Rightarrow> reference \<Rightarrow> failure + (reference \<times> store)" where
  "spread h r =
     (case deref h r of
        Array xs \<Rightarrow> Inr (Address (length h), h @ [xs])
      | NotArray \<Rightarrow> Inl TypeError)"

text \<open>The getters \<^verbatim>\<open>keys\<close> and \<^verbatim>\<open>indicies\<close>.\<close>

definition get_keys :: "store \<Rightarrow> TableObject \<Rightarrow> failure + (reference \<times> store)" where
  "get_keys h obj = spread h (object_keys obj)"

definition get_indicies :: "store \<Rightarrow> TableObject \<Rightarrow> failure + (reference \<times> store)" where
  "get_indicies h obj = spread h (object_indices obj)"

text \<open>
  Any mutation of the array at a reference (\<^verbatim>\<open>push\<close>, \<^verbatim>\<open>pop\<close>, \<^verbatim>\<open>splice\<close>, an assignment
  to an index or to \<^verbatim>\<open>length\<close>): its elements are replaced by \<open>f\<close> of them.
\<close>

definition mutate :: "reference \<Rightarrow> (element list \<Rightarrow> element list) \<Rightarrow> store \<Rightarrow> store" where
  "mutate r f h =
     (case r of
        Address a \<Rightarrow> if a < length h then h[a := f (h ! a)] else h
      | NoArray \<Rightarrow> h)"

text \<open>The elements of the array a getter returned, or the error it raised.\<close>

definition returned :: "failure + (reference \<times> store) \<Rightarrow> failure + jsarray" where
  "returned x = (case x of Inl e \<Rightarrow> Inl e | Inr (r, h) \<Rightarrow> Inr (deref h r))"

text \<open>The references of the table point into the store.\<close>

definition allocated :: "store \<Rightarrow> reference \<Rightarrow> bool" where
  "allocated h r = (case r of Address a \<Rightarrow> a < length h | NoArray \<Rightarrow> True)"

section \<open>The provider facade (aws/DynamoProvider.js)\<close>

text \<open>
  The promise \<^verbatim>\<open>start\<close> builds is kept by what it settles to: fulfilled with the value
  of \<^verbatim>\<open>this._started\<close>, or rejected with the error the initialization threw. The two calls
  into the Amazon SDK (\<^verbatim>\<open>aws.config.update\<close> and \<^verbatim>\<open>new aws.DynamoDB\<close>) are the
  parameter \<open>sdk\<close>, from the region and the API version to the client or the error thrown.
  \<open>initializations\<close> counts the runs of that initialization.
\<close>

record configuration =
  region :: string
  prefix :: string
  apiVersion :: "string option"

datatype 'e promise = Fulfilled bool | Rejected 'e

record ('e, 'd) DynamoProvider =
  provider_configuration :: configuration
  startPromise :: "'e promise option"
  started :: bool
  dynamo :: "'d option"
  isDisposed :: bool
  initializations :: nat

definition newDynamoProvider :: "configuration \<Rightarrow> ('e, 'd) DynamoProvider" where
  "newDynamoProvider c =
     \<lparr>provider_configuration = c, startPromise = None, started = False, dynamo = None,
      isDisposed = False, initializations = 0\<rparr>"

datatype provider_error = Disposed

definition start ::
  "(string \<Rightarrow> string \<Rightarrow> 'e + 'd) \<Rightarrow> ('e, 'd) DynamoProvider
     \<Rightarrow> (provider_error + 'e promise) \<times> ('e, 'd) DynamoProvider" where
  "start sdk p =
     (if isDisposed p then (Inl Disposed, p)
      else case startPromise p of
             Some promise \<Rightarrow> (Inr promise, p)
           | None \<Rightarrow>
               (case sdk (region (provider_configuration p))
                         (case apiVersion (provider_configuration p) of
                            None \<Rightarrow> ''2012-08-10'' | Some v \<Rightarrow> if v = [] then ''2012-08-10'' else v) of
                  Inr d \<Rightarrow>
                    (Inr (Fulfilled True),
                     p\<lparr>dynamo := Some d, started := True, startPromise := Some (Fulfilled True),
                       initializations := initializations p + 1\<rparr>)
                | Inl e \<Rightarrow>
                    (Inr (Rejected e),
                     p\<lparr>startPromise := Some (Rejected e),
                       initializations := initializations p + 1\<rparr>)))"

text \<open>The provider after \<open>n\<close> calls of \<^verbatim>\<open>start\<close>.\<close>

fun starts ::
  "(string \<Rightarrow> string \<Rightarrow> 'e + 'd) \<Rightarrow> nat \<Rightarrow> ('e, 'd) DynamoProvider \<Rightarrow> ('e, 'd) DynamoProvider" where
  "starts sdk 0 p = p"
| "starts sdk (Suc n) p = starts sdk n (snd (start sdk p))"

section \<open>The serializers\<close>

text \<open>
  A JavaScript string is a sequence of UTF-16 code units, a buffer a sequence of bytes.
  A wire record has one key, the code of its data type: \<^verbatim>\<open>{ S: string }\<close>,
  \<^verbatim>\<open>{ N: string }\<close>, \<^verbatim>\<open>{ B: buffer }\<close>, \<^verbatim>\<open>{ BOOL: boolean }\<close>.
\<close>

type_synonym jsstring = "16 word list"

type_synonym buffer = "8 word list"

datatype wire = S jsstring | N jsstring | B buffer | BOOL bool

datatype serialization_failure = ConfigurationError | SerializationError

text \<open>
  The libraries under the serializers, taken as parameters: \<^verbatim>\<open>JSON.stringify\<close> and
  \<^verbatim>\<open>JSON.parse\<close> on the values \<open>'j\<close> that JSON represents, the encoding of a string into
  a buffer and back, compression and decompression, and the cipher of an encryption
  type under a key. The decoding directions fail with \<open>None\<close>.
\<close>

record 'j codec =
  stringify :: "'j \<Rightarrow> jsstring"
  parse :: "jsstring \<Rightarrow> 'j option"
  toBuffer :: "jsstring \<Rightarrow> buffer"
  fromBuffer :: "buffer \<Rightarrow> jsstring option"
  compress :: "buffer \<Rightarrow> buffer"
  decompress :: "buffer \<Rightarrow> buffer option"
  encrypt :: "EncryptionType \<Rightarrow> string \<Rightarrow> buffer \<Rightarrow> buffer"
  decrypt :: "EncryptionType \<Rightarrow> string \<Rightarrow> buffer \<Rightarrow> buffer option"

text \<open>Each library function is undone by its inverse.\<close>

definition lossless :: "'j codec \<Rightarrow> bool" where
  "lossless c =
     ((\<forall>v. parse c (stringify c v) = Some v) \<and>
      (\<forall>s. fromBuffer c (toBuffer c s) = Some s) \<and>
      (\<forall>b. decompress c (compress c b) = Some b) \<and>
      (\<forall>t k b. decrypt c t k (encrypt c t k b) = Some b))"

definition orFail :: "'a option \<Rightarrow> serialization_failure + 'a" where
  "orFail x = (case x of None \<Rightarrow> Inl SerializationError | Some v \<Rightarrow> Inr v)"

definition andThen ::
  "serialization_failure + 'a \<Rightarrow> ('a \<Rightarrow> serialization_failure + 'b) \<Rightarrow> serialization_failure + 'b" where
  "andThen x f = (case x of Inl e \<Rightarrow> Inl e | Inr v \<Rightarrow> f v)"

text \<open>
  The method \<^verbatim>\<open>_getEncryptor\<close> of \<^verbatim>\<open>EncryptedJsonSerializer\<close>
  (aws/dynamo/schema/serialization/attributes/EncryptedJsonSerializer.js):
  \<^verbatim>\<open>this._getAttribute().encryptor\<close>.
\<close>

definition getEncryptor :: "Attribute \<Rightarrow> Encryptor option" where
  "getEncryptor a = attribute_encryptor a"

text \<open>
  Modelled from the spec: \<^verbatim>\<open>StringSerializer\<close>, which is not among the sources. Section 4.2:
  identity mapping between a string and a string-tagged record.
\<close>

definition StringSerializer_serialize :: "jsstring \<Rightarrow> serialization_failure + wire" where
  "StringSerializer_serialize v = Inr (S v)"

text \<open>
  Modelled from the spec: \<^verbatim>\<open>deserialize\<close> of \<^verbatim>\<open>StringSerializer\<close>, which is not among the
  sources. Section 4.2: the string of a string-tagged record; another tag is a serialization error (section 7: malformed tag).
\<close>

definition StringSerializer_deserialize :: "wire \<Rightarrow> serialization_failure + jsstring" where
  "StringSerializer_deserialize w = (case w of S v \<Rightarrow> Inr v | _ \<Rightarrow> Inl SerializationError)"

text \<open>
  Modelled from the spec: \<^verbatim>\<open>JsonSerializer\<close>, which is not among the sources. Section 4.2:
  domain object to JSON text, tagged as string, and back.
\<close>

definition JsonSerializer_serialize :: "'j codec \<Rightarrow> 'j \<Rightarrow> serialization_failure + wire" where
  "JsonSerializer_serialize c v = Inr (S (stringify c v))"

text \<open>
  Modelled from the spec: \<^verbatim>\<open>deserialize\<close> of \<^verbatim>\<open>JsonSerializer\<close>, which is not among the
  sources. Section 4.2: the string-tagged JSON text is parsed; a failure to parse or another tag is a serialization error.
\<close>

definition JsonSerializer_deserialize :: "'j codec \<Rightarrow> wire \<Rightarrow> serialization_failure + 'j" where
  "JsonSerializer_deserialize c w =
     (case w of S s \<Rightarrow> orFail (parse c s) | _ \<Rightarrow> Inl SerializationError)"

text \<open>
  Modelled from the spec: \<^verbatim>\<open>CompressedJsonSerializer\<close>, which is not among the sources.
  Section 4.2: JSON-encodes the object, compresses the byte sequence, tags the result as
  binary; decoding decompresses, then parses, and fails with a serialization error if
  decompression or parsing fails.
\<close>

definition CompressedJsonSerializer_serialize ::
  "'j codec \<Rightarrow> 'j \<Rightarrow> serialization_failure + wire" where
  "CompressedJsonSerializer_serialize c v = Inr (B (compress c (toBuffer c (stringify c v))))"

text \<open>
  Modelled from the spec: \<^verbatim>\<open>deserialize\<close> of \<^verbatim>\<open>CompressedJsonSerializer\<close>, which is not among the
  sources. Section 4.2: decoding reverses: decompress, then JSON-parse; fails with a serialization error if decompression or parsing fails.
\<close>

definition CompressedJsonSerializer_deserialize ::
  "'j codec \<Rightarrow> wire \<Rightarrow> serialization_failure + 'j" where
  "CompressedJsonSerializer_deserialize c w =
     (case w of
        B b \<Rightarrow>
          andThen (orFail (decompress c b)) (\<lambda>d.
          andThen (orFail (fromBuffer c d)) (\<lambda>s.
          orFail (parse c s)))
      | _ \<Rightarrow> Inl SerializationError)"

text \<open>
  Modelled from the spec: \<^verbatim>\<open>serialize\<close> and \<^verbatim>\<open>deserialize\<close> of \<^verbatim>\<open>EncryptedJsonSerializer\<close>,
  inherited from the class that is not among the sources. Section 4.2: after compression,
  encrypts the byte sequence with the attribute's encryptor, tags as binary; decoding
  decrypts, decompresses, parses; fails with a configuration error if the attribute has
  no encryptor.
\<close>

definition EncryptedJsonSerializer_serialize ::
  "'j codec \<Rightarrow> Attribute \<Rightarrow> 'j \<Rightarrow> serialization_failure + wire" where
  "EncryptedJsonSerializer_serialize c a v =
     (case getEncryptor a of
        None \<Rightarrow> Inl ConfigurationError
      | Some e \<Rightarrow>
          Inr (B (encrypt c (encryptor_type e) (encryptor_key e)
                    (compress c (toBuffer c (stringify c v))))))"

text \<open>
  Modelled from the spec: \<^verbatim>\<open>deserialize\<close> of \<^verbatim>\<open>EncryptedJsonSerializer\<close>, which is not among the
  sources. Section 4.2: decoding: decrypt, decompress, parse; a configuration error if the attribute has no encryptor.
\<close>

definition EncryptedJsonSerializer_deserialize ::
  "'j codec \<Rightarrow> Attribute \<Rightarrow> wire \<Rightarrow> serialization_failure + 'j" where
  "EncryptedJsonSerializer_deserialize c a w =
     (case getEncryptor a of
        None \<Rightarrow> Inl ConfigurationError
      | Some e \<Rightarrow>
          (case w of
             B b \<Rightarrow>
               andThen (orFail (decrypt c (encryptor_type e) (encryptor_key e) b)) (\<lambda>x.
               andThen (orFail (decompress c x)) (\<lambda>d.
               andThen (orFail (fromBuffer c d)) (\<lambda>s.
               orFail (parse c s))))
           | _ \<Rightarrow> Inl SerializationError))"

text \<open>
  Modelled from the spec: \<^verbatim>\<open>EncryptedStringSerializer\<close>, which is not among the sources
  (its test is). Section 4.2: encrypts the raw string directly (no JSON, no compression),
  tags as binary; decoding decrypts, then returns the string unchanged.
\<close>

definition EncryptedStringSerializer_serialize ::
  "'j codec \<Rightarrow> Attribute \<Rightarrow> jsstring \<Rightarrow> serialization_failure + wire" where
  "EncryptedStringSerializer_serialize c a v =
     (case attribute_encryptor a of
        None \<Rightarrow> Inl ConfigurationError
      | Some e \<Rightarrow> Inr (B (encrypt c (encryptor_type e) (encryptor_key e) (toBuffer c v))))"

text \<open>
  Modelled from the spec: \<^verbatim>\<open>deserialize\<close> of \<^verbatim>\<open>EncryptedStringSerializer\<close>, which is not among the
  sources. Section 4.2: decoding decrypts, then returns the string unchanged.
\<close>

definition EncryptedStringSerializer_deserialize ::
  "'j codec \<Rightarrow> Attribute \<Rightarrow> wire \<Rightarrow> serialization_failure + jsstring" where
  "EncryptedStringSerializer_deserialize c a w =
     (case attribute_encryptor a of
        None \<Rightarrow> Inl ConfigurationError
      | Some e \<Rightarrow>
          (case w of
             B b \<Rightarrow>
               andThen (orFail (decrypt c (encryptor_type e) (encryptor_key e) b)) (\<lambda>x.
               orFail (fromBuffer c x))
           | _ \<Rightarrow> Inl SerializationError))"

section \<open>Sample values\<close>

text \<open>
  Concrete methods and tables for the examples: uniqueness decided by \<open>distinct\<close>, a key
  or an index valid when it is named, a throughput valid when both rates are positive.
\<close>

definition sample_methods :: "string methods" where
  "sample_methods =
     \<lparr>unique = distinct,
      Key_validate = (\<lambda>k. attribute_name (attribute k) \<noteq> []),
      Index_validate = (\<lambda>i. index_name i \<noteq> []),
      ProvisionedThroughput_validate = (\<lambda>p. 0 < throughput_read p \<and> 0 < throughput_write p),
      toAttributeSchema = attribute_name,
      toKeySchema = (\<lambda>k. attribute_name (attribute k)),
      toIndexSchema = index_name,
      toProvisionedThroughputSchema = (\<lambda>p. ''throughput'')\<rparr>"

text \<open>The same methods with \<^verbatim>\<open>array.unique\<close> as the library has it.\<close>

definition library_methods :: "string methods" where
  "library_methods = sample_methods\<lparr>unique := (\<lambda>a. truthy_array (array_unique a))\<rparr>"

definition sample_key :: "string \<Rightarrow> DataType \<Rightarrow> KeyType \<Rightarrow> element" where
  "sample_key n d k =
     KeyInstance \<lparr>attribute = \<lparr>attribute_name = n, attribute_dataType = d, attribute_encryptor = None\<rparr>,
                  keyType = k\<rparr>"

definition sample_index :: "string \<Rightarrow> IndexType \<Rightarrow> element" where
  "sample_index n t = IndexInstance \<lparr>index_name = n, index_keys = [], index_type = t\<rparr>"

definition sample_table :: "element list \<Rightarrow> element list \<Rightarrow> Table" where
  "sample_table ks is =
     newTable (Some ''quotes'') (Some (Array ks)) (Some (Array is))
       (Some \<lparr>throughput_read = 5, throughput_write = 5\<rparr>)"


text \<open>A store with the two arrays of a table object.\<close>

definition sample_store :: store where
  "sample_store = [[sample_key ''id'' STRING HASH], [sample_index ''byName'' GLOBAL_SECONDARY]]"

definition sample_object :: TableObject where
  "sample_object =
     \<lparr>object_name = Some ''quotes'', object_keys = Address 0, object_indices = Address 1,
      object_provisionedThroughput = Some \<lparr>throughput_read = 5, throughput_write = 5\<rparr>\<rparr>"

text \<open>
  An SDK that refuses an empty region, and the configuration of a provider.
\<close>

definition sample_sdk :: "string \<Rightarrow> string \<Rightarrow> string + string" where
  "sample_sdk r v = (if r = [] then Inl ''Missing region in config'' else Inr (r @ ''/'' @ v))"

definition sample_configuration :: configuration where
  "sample_configuration = \<lparr>region = ''us-east-1'', prefix = ''test-'', apiVersion = None\<rparr>"

text \<open>
  A codec for the examples: JSON text of a string value in quotes, strings as UTF-16
  big-endian bytes, a one-byte header for compression, and a byte mask derived from the
  encryption type and the key for the cipher. The attribute is the one of the test of
  \<^verbatim>\<open>EncryptedStringSerializer\<close> among the sources.
\<close>

unbundle bit_operations_syntax

fun units :: "8 word list \<Rightarrow> 16 word list option" where
  "units [] = Some []"
| "units [x] = None"
| "units (hi # lo # bs) =
     (case units bs of None \<Rightarrow> None | Some us \<Rightarrow> Some ((push_bit 8 (ucast hi) OR ucast lo) # us))"

definition bytes :: "16 word list \<Rightarrow> 8 word list" where
  "bytes s = concat (map (\<lambda>u. [ucast (drop_bit 8 u), ucast u]) s)"

definition mask_of :: "EncryptionType \<Rightarrow> string \<Rightarrow> 8 word" where
  "mask_of t k = of_nat (length k) + (case t of AES_192 \<Rightarrow> 192 | AES_256 \<Rightarrow> 0)"

definition sample_codec :: "jsstring codec" where
  "sample_codec =
     \<lparr>stringify = (\<lambda>v. 34 # v @ [34]),
      parse = (\<lambda>s. case s of [] \<Rightarrow> None
                 | q # r \<Rightarrow> if q = 34 \<and> r \<noteq> [] \<and> last r = 34 then Some (butlast r) else None),
      toBuffer = bytes,
      fromBuffer = units,
      compress = (\<lambda>b. 120 # b),
      decompress = (\<lambda>b. case b of [] \<Rightarrow> None | h # r \<Rightarrow> if h = 120 then Some r else None),
      encrypt = (\<lambda>t k b. map (\<lambda>x. x XOR mask_of t k) b),
      decrypt = (\<lambda>t k b. Some (map (\<lambda>x. x XOR mask_of t k) b))\<rparr>"

definition sample_attribute :: Attribute where
  "sample_attribute =
     \<lparr>attribute_name = ''test'', attribute_dataType = STRING,
      attribute_encryptor = Some \<lparr>encryptor_type = AES_192, encryptor_key = ''this-is-a-simple-test''\<rparr>\<rparr>"


section \<open>Properties of the scan stream reader\<close>

lemma inv_constructor: "reader_inv constructor"
  by (simp add: reader_inv_def constructor_def ended_def)

lemma inv_read: "reader_inv r \<Longrightarrow> reader_inv (read r)"
  by (auto simp: reader_inv_def read_def scanChunkRecursive_def ended_def isEmitError_def)

lemma inv_onResults:
  "reader_inv r \<Longrightarrow> pending r = p # ps \<Longrightarrow> reader_inv (onResults c a (r\<lparr>pending := ps\<rparr>))"
  by (auto simp: reader_inv_def onResults_def scanChunkRecursive_def ended_def isEmitError_def Let_def)

lemma inv_onError:
  "reader_inv r \<Longrightarrow> pending r = p # ps \<Longrightarrow> reader_inv (onError e (r\<lparr>pending := ps\<rparr>))"
  by (auto simp: reader_inv_def onError_def ended_def isEmitError_def)

lemma inv_tick:
  "reader_inv r \<Longrightarrow> ticks r = e # es \<Longrightarrow> reader_inv (r\<lparr>ticks := es, trace := trace r @ [EmitError e]\<rparr>)"
  by (auto simp: reader_inv_def ended_def isEmitError_def split: if_splits)

lemma inv_step: "reader_inv r \<Longrightarrow> reader_inv (step r a)"
  by (cases a) (auto simp: inv_read inv_onResults inv_onError inv_tick split: list.splits)

lemma inv_foldl: "reader_inv r \<Longrightarrow> reader_inv (foldl step r acts)"
  by (induction acts arbitrary: r) (simp_all add: inv_step)

lemma inv_run: "reader_inv r \<Longrightarrow> reader_inv (run acts r)"
  by (simp add: run_def inv_foldl)

lemma errored_step:
  "error r \<Longrightarrow> \<not> reading r \<Longrightarrow> pending r = [] \<Longrightarrow>
   error (step r a) \<and> \<not> reading (step r a) \<and> pending (step r a) = [] \<and>
   filter isScanChunk (trace (step r a)) = filter isScanChunk (trace r)"
  by (cases a) (auto simp: read_def isScanChunk_def split: list.splits)

lemma errored_foldl:
  "error r \<Longrightarrow> \<not> reading r \<Longrightarrow> pending r = [] \<Longrightarrow>
   error (foldl step r acts) \<and> \<not> reading (foldl step r acts) \<and> pending (foldl step r acts) = [] \<and>
   filter isScanChunk (trace (foldl step r acts)) = filter isScanChunk (trace r)"
proof (induction acts arbitrary: r)
  case Nil
  then show ?case by simp
next
  case (Cons a acts)
  from errored_step [OF Cons.prems, of a] Cons.IH [of "step r a"]
  show ?case by simp
qed

lemma quiet_step:
  "error r \<Longrightarrow> \<not> reading r \<Longrightarrow> pending r = [] \<Longrightarrow> ticks r = [] \<Longrightarrow> step r a = r"
  by (cases a) (auto simp: read_def)

lemma quiet_foldl:
  "error r \<Longrightarrow> \<not> reading r \<Longrightarrow> pending r = [] \<Longrightarrow> ticks r = [] \<Longrightarrow> foldl step r acts = r"
  by (induction acts) (simp_all add: quiet_step)

lemma paused_step:
  "\<not> reading r \<Longrightarrow> pending r = [] \<Longrightarrow> ticks r = [] \<Longrightarrow> a \<noteq> Pull \<Longrightarrow> step r a = r"
  by (cases a) auto

lemma paused_foldl:
  "\<not> reading r \<Longrightarrow> pending r = [] \<Longrightarrow> ticks r = [] \<Longrightarrow> Pull \<notin> set acts \<Longrightarrow> foldl step r acts = r"
  by (induction acts) (auto simp: paused_step)

lemma reject_shape:
  assumes inv: "reader_inv r" and pend: "pending r \<noteq> []"
  shows "step r (Reject e) =
           r\<lparr>pending := [], reading := False, error := True,
             trace := trace r @ [PushNull], ticks := [e]\<rparr>"
proof -
  from inv pend obtain p where p: "pending r = [p]"
    by (cases "pending r") (auto simp: reader_inv_def)
  from inv pend have "\<not> error r" by (simp add: reader_inv_def)
  with inv have "ticks r = []" by (auto simp: reader_inv_def)
  with p show ?thesis by (simp add: onError_def)
qed

text \<open>
  C3. In any state the reader can reach with a \<^verbatim>\<open>scanChunk\<close> call in flight, a rejection
  of that call leaves everything pushed before in place and signals the end of the
  sequence; the error is not emitted by the handler itself, which only queues it for the
  next tick, and that tick emits it. The error is emitted exactly once, the reader is
  Errored, and whatever happens afterwards no further \<^verbatim>\<open>scanChunk\<close> call is made: after
  the tick nothing changes the reader at all.
\<close>

theorem scan_failure_terminal:
  assumes "r = run acts constructor" and "pending r \<noteq> []"
  shows "trace (step r (Reject e)) = trace r @ [PushNull] \<and>
         ticks (step r (Reject e)) = [e] \<and>
         filter isEmitError (trace (step r (Reject e))) = [] \<and>
         trace (run [Reject e, Tick] r) = trace r @ [PushNull, EmitError e] \<and>
         filter isEmitError (trace (run [Reject e, Tick] r)) = [EmitError e] \<and>
         phase_of (run [Reject e, Tick] r) = Errored \<and>
         run acts' (run [Reject e, Tick] r) = run [Reject e, Tick] r \<and>
         filter isScanChunk (trace (run (Reject e # acts') r)) = filter isScanChunk (trace r)"
proof -
  have inv: "reader_inv r" using assms(1) by (simp add: inv_run inv_constructor)
  note sh = reject_shape [OF inv assms(2), of e]
  from inv assms(2) have ne: "\<not> error r" by (simp add: reader_inv_def)
  with inv have noerr: "filter isEmitError (trace r) = []"
    by (simp add: reader_inv_def)
  have 0: "trace (step r (Reject e)) = trace r @ [PushNull]"
    "ticks (step r (Reject e)) = [e]"
    "filter isEmitError (trace (step r (Reject e))) = []"
    unfolding sh by (simp_all add: noerr isEmitError_def)
  let ?s = "run [Reject e, Tick] r"
  have s: "?s = r\<lparr>pending := [], reading := False, error := True,
             trace := trace r @ [PushNull, EmitError e], ticks := []\<rparr>"
    unfolding run_def foldl.simps sh by simp
  have 1: "trace ?s = trace r @ [PushNull, EmitError e]" unfolding s by simp
  have 2: "filter isEmitError (trace ?s) = [EmitError e]"
    unfolding s by (simp add: noerr isEmitError_def)
  have 3: "phase_of ?s = Errored" unfolding s by (simp add: phase_of_def)
  have 4: "run acts' ?s = ?s"
    unfolding run_def [of acts'] s by (rule quiet_foldl) simp_all
  have "filter isScanChunk (trace (foldl step (step r (Reject e)) acts'))
          = filter isScanChunk (trace (step r (Reject e)))"
    using errored_foldl [of "step r (Reject e)" acts'] unfolding sh by simp
  then have 5: "filter isScanChunk (trace (run (Reject e # acts') r)) = filter isScanChunk (trace r)"
    unfolding run_def foldl.simps sh by (simp add: isScanChunk_def)
  from 0 1 2 3 4 5 show ?thesis by blast
qed

text \<open>
  C4. In any state the reader can reach with a \<^verbatim>\<open>scanChunk\<close> call in flight, when the
  call resolves to a non-empty page and the stream declines the push, the reader is
  Paused with no call in flight, nothing but a pull changes it, and the next pull calls
  \<^verbatim>\<open>scanChunk\<close> with the declined page (the stored cursor) when that page has a cursor.
\<close>

theorem backpressure_pauses_until_pull:
  assumes "r = run acts constructor" and "pending r \<noteq> []" and "results c \<noteq> []"
  shows "phase_of (step r (Resolve c False)) = Paused \<and>
         pending (step r (Resolve c False)) = [] \<and>
         previous (step r (Resolve c False)) = Some c \<and>
         trace (step r (Resolve c False)) = trace r @ [Push (results c)] \<and>
         (\<forall>acts'. Pull \<notin> set acts' \<longrightarrow>
            run acts' (step r (Resolve c False)) = step r (Resolve c False)) \<and>
         (startKey c \<noteq> None \<longrightarrow>
            trace (step (step r (Resolve c False)) Pull)
              = trace r @ [Push (results c), ScanChunk (Some c)] \<and>
            pending (step (step r (Resolve c False)) Pull) = [Some c] \<and>
            phase_of (step (step r (Resolve c False)) Pull) = Reading)"
proof -
  have inv: "reader_inv r" using assms(1) by (simp add: inv_run inv_constructor)
  from inv assms(2) obtain p where p: "pending r = [p]"
    by (cases "pending r") (auto simp: reader_inv_def)
  from inv assms(2) have ne: "\<not> error r" and rd: "reading r" by (simp_all add: reader_inv_def)
  from inv ne have tk: "ticks r = []" by (auto simp: reader_inv_def)
  from inv assms(2) have nend: "\<not> ended r" by (auto simp: reader_inv_def)
  let ?s = "step r (Resolve c False)"
  have s: "?s = r\<lparr>pending := [], previous := Some c,
                   scanned := scanned r + length (results c), reading := False,
                   trace := trace r @ [Push (results c)]\<rparr>"
    using p assms(3) by (simp add: onResults_def)
  have 1: "phase_of ?s = Paused"
    using ne nend unfolding s by (simp add: phase_of_def ended_def)
  have 5: "\<forall>acts'. Pull \<notin> set acts' \<longrightarrow> run acts' ?s = ?s"
  proof (intro allI impI)
    fix acts' :: "('a, 'b, 'c) action list"
    assume "Pull \<notin> set acts'"
    then show "run acts' ?s = ?s"
      unfolding run_def [of acts'] s by (intro paused_foldl) (simp_all add: tk)
  qed
  have 6: "startKey c \<noteq> None \<longrightarrow>
            trace (step ?s Pull) = trace r @ [Push (results c), ScanChunk (Some c)] \<and>
            pending (step ?s Pull) = [Some c] \<and> phase_of (step ?s Pull) = Reading"
    using ne unfolding s by (auto simp: read_def scanChunkRecursive_def phase_of_def)
  have 2: "pending ?s = []" and 3: "previous ?s = Some c"
    and 4: "trace ?s = trace r @ [Push (results c)]"
    unfolding s by simp_all
  from 1 2 3 4 5 6 show ?thesis by blast
qed


lemma settle_idle: "pending r = [] \<Longrightarrow> settle accepts script r = (r, script)"
  by (cases script) simp_all

lemma consume_ended: "ended r \<Longrightarrow> consume n accepts script r = r"
  by (cases n) simp_all

text \<open>
  C2. The provider returns a page of five items with a cursor, an empty page with a
  cursor and a page of three items without a cursor. Whatever the stream answers to the
  two pushes, a consumer that asks at least three times sees exactly: the first call,
  the push of the five items, the second and the third call with nothing pushed between
  them, the push of the three items, and one \<^verbatim>\<open>push(null)\<close>. No empty batch is pushed,
  the reader ends Exhausted, and no fourth call is made whatever else the provider could
  have returned.
\<close>

theorem scan_three_pages:
  assumes "length xs = 5" and "length ys = 3" and "3 \<le> n"
  shows
    "trace (consume n accepts
        ([Inr \<lparr>results = xs, startKey = Some k1\<rparr>, Inr \<lparr>results = [], startKey = Some k2\<rparr>,
          Inr \<lparr>results = ys, startKey = None\<rparr>] @ rest) constructor)
       = [ScanChunk None, Push xs,
          ScanChunk (Some \<lparr>results = xs, startKey = Some k1\<rparr>),
          ScanChunk (Some \<lparr>results = [], startKey = Some k2\<rparr>),
          Push ys, PushNull] \<and>
     phase_of (consume n accepts
        ([Inr \<lparr>results = xs, startKey = Some k1\<rparr>, Inr \<lparr>results = [], startKey = Some k2\<rparr>,
          Inr \<lparr>results = ys, startKey = None\<rparr>] @ rest) constructor) = Exhausted \<and>
     scanned (consume n accepts
        ([Inr \<lparr>results = xs, startKey = Some k1\<rparr>, Inr \<lparr>results = [], startKey = Some k2\<rparr>,
          Inr \<lparr>results = ys, startKey = None\<rparr>] @ rest) constructor) = 8"
proof -
  from assms(3) obtain m where n: "n = Suc (Suc (Suc m))"
    by (metis Suc_le_D numeral_3_eq_3 Suc_le_mono)
  from assms(1,2) have ne: "xs \<noteq> []" "ys \<noteq> []" by auto
  show ?thesis
    unfolding n
    by (cases "accepts [ScanChunk None]";
        cases "accepts [ScanChunk None, Push xs,
          ScanChunk (Some \<lparr>results = xs, startKey = Some k1\<rparr>),
          ScanChunk (Some \<lparr>results = [], startKey = Some k2\<rparr>)]")
       (simp_all add: assms(1,2) ne constructor_def read_def scanChunkRecursive_def onResults_def
          flush_def run_def settle_idle consume_ended ended_def phase_of_def Let_def)
qed

theorem scan_three_pages_witness:
  "trace (consume 3 (\<lambda>t. length t < 3)
        [Inr \<lparr>results = [1, 2, 3, 4, 5 :: nat], startKey = Some (10 :: nat)\<rparr>,
         Inr \<lparr>results = [], startKey = Some 20\<rparr>,
         Inr \<lparr>results = [6, 7, 8], startKey = None\<rparr>] (constructor :: (nat, nat, string) reader))
       = [ScanChunk None, Push [1, 2, 3, 4, 5],
          ScanChunk (Some \<lparr>results = [1, 2, 3, 4, 5], startKey = Some 10\<rparr>),
          ScanChunk (Some \<lparr>results = [], startKey = Some 20\<rparr>),
          Push [6, 7, 8], PushNull]"
  using scan_three_pages [of "[1, 2, 3, 4, 5 :: nat]" "[6, 7, 8]" 3 "\<lambda>t. length t < 3" "10 :: nat" 20 "[] :: (string + (nat, nat) chunk) list"]
  by simp

theorem scan_failure_terminal_witness:
  "trace (run [Pull, Resolve \<lparr>results = [1, 2, 3, 4, 5 :: nat], startKey = Some (10 :: nat)\<rparr> True,
               Reject ''failed'', Tick, Pull, Pull] constructor)
     = [ScanChunk None, Push [1, 2, 3, 4, 5],
        ScanChunk (Some \<lparr>results = [1, 2, 3, 4, 5], startKey = Some 10\<rparr>),
        PushNull, EmitError ''failed''] \<and>
   trace (run [Pull, Resolve \<lparr>results = [1, 2, 3, 4, 5 :: nat], startKey = Some (10 :: nat)\<rparr> True,
               Reject ''failed''] constructor)
     = [ScanChunk None, Push [1, 2, 3, 4, 5],
        ScanChunk (Some \<lparr>results = [1, 2, 3, 4, 5], startKey = Some 10\<rparr>),
        PushNull] \<and>
   ticks (run [Pull, Resolve \<lparr>results = [1, 2, 3, 4, 5 :: nat], startKey = Some (10 :: nat)\<rparr> True,
               Reject ''failed''] (constructor :: (nat, nat, string) reader))
     = [''failed'']"
proof -
  let ?r = "run [Pull, Resolve \<lparr>results = [1, 2, 3, 4, 5 :: nat], startKey = Some (10 :: nat)\<rparr> True]
              (constructor :: (nat, nat, string) reader)"
  have r: "?r = \<lparr>previous = Some \<lparr>results = [1, 2, 3, 4, 5], startKey = Some 10\<rparr>, scanned = 5,
                  reading = True, error = False,
                  pending = [Some \<lparr>results = [1, 2, 3, 4, 5], startKey = Some 10\<rparr>], ticks = [],
                  trace = [ScanChunk None, Push [1, 2, 3, 4, 5],
                           ScanChunk (Some \<lparr>results = [1, 2, 3, 4, 5], startKey = Some 10\<rparr>)]\<rparr>"
    by (simp add: run_def constructor_def read_def scanChunkRecursive_def onResults_def Let_def)
  have p: "pending ?r \<noteq> []" unfolding r by simp
  have split: "run [Pull, Resolve \<lparr>results = [1, 2, 3, 4, 5 :: nat], startKey = Some (10 :: nat)\<rparr> True,
               Reject ''failed'', Tick, Pull, Pull] (constructor :: (nat, nat, string) reader)
            = run [Pull, Pull] (run [Reject ''failed'', Tick] ?r)"
    by (simp add: run_def)
  have split': "run [Pull, Resolve \<lparr>results = [1, 2, 3, 4, 5 :: nat], startKey = Some (10 :: nat)\<rparr> True,
               Reject ''failed''] (constructor :: (nat, nat, string) reader)
            = step ?r (Reject ''failed'')"
    by (simp add: run_def)
  from scan_failure_terminal [OF refl p, of "''failed''" "[Pull, Pull]"]
  have a: "trace (run [Reject ''failed'', Tick] ?r) = trace ?r @ [PushNull, EmitError ''failed'']"
    and b: "run [Pull, Pull] (run [Reject ''failed'', Tick] ?r) = run [Reject ''failed'', Tick] ?r"
    and c: "trace (step ?r (Reject ''failed'')) = trace ?r @ [PushNull]"
    and d: "ticks (step ?r (Reject ''failed'')) = [''failed'']"
    by blast+
  have tr: "trace ?r = [ScanChunk None, Push [1, 2, 3, 4, 5],
                           ScanChunk (Some \<lparr>results = [1, 2, 3, 4, 5], startKey = Some 10\<rparr>)]"
    unfolding r by simp
  show ?thesis unfolding split split' b a c d tr by simp
qed

theorem backpressure_pauses_until_pull_witness:
  "phase_of (run [Pull, Resolve \<lparr>results = [1 :: nat], startKey = Some (10 :: nat)\<rparr> False]
       (constructor :: (nat, nat, string) reader)) = Paused \<and>
   run [Pull, Resolve \<lparr>results = [1 :: nat], startKey = Some (10 :: nat)\<rparr> False, Tick, Reject ''x'']
       (constructor :: (nat, nat, string) reader)
     = run [Pull, Resolve \<lparr>results = [1 :: nat], startKey = Some (10 :: nat)\<rparr> False] constructor \<and>
   trace (run [Pull, Resolve \<lparr>results = [1 :: nat], startKey = Some (10 :: nat)\<rparr> False, Pull]
       (constructor :: (nat, nat, string) reader))
     = [ScanChunk None, Push [1], ScanChunk (Some \<lparr>results = [1], startKey = Some 10\<rparr>)]"
proof -
  let ?c = "\<lparr>results = [1 :: nat], startKey = Some (10 :: nat)\<rparr>"
  let ?r = "run [Pull] (constructor :: (nat, nat, string) reader)"
  have r: "?r = \<lparr>previous = None, scanned = 0, reading = True, error = False,
                  pending = [None], ticks = [], trace = [ScanChunk None]\<rparr>"
    by (simp add: run_def constructor_def read_def scanChunkRecursive_def)
  have p: "pending ?r \<noteq> []" unfolding r by simp
  have c: "results ?c \<noteq> []" by simp
  have e1: "run [Pull, Resolve ?c False] (constructor :: (nat, nat, string) reader)
              = step ?r (Resolve ?c False)"
    and e2: "run [Pull, Resolve ?c False, Tick, Reject ''x''] (constructor :: (nat, nat, string) reader)
              = run [Tick, Reject ''x''] (step ?r (Resolve ?c False))"
    and e3: "run [Pull, Resolve ?c False, Pull] (constructor :: (nat, nat, string) reader)
              = step (step ?r (Resolve ?c False)) Pull"
    by (simp_all add: run_def)
  have t: "trace ?r = [ScanChunk None]" unfolding r by simp
  from backpressure_pauses_until_pull [OF refl p c]
  have a: "phase_of (step ?r (Resolve ?c False)) = Paused"
    and b: "\<forall>acts'. Pull \<notin> set acts' \<longrightarrow>
            run acts' (step ?r (Resolve ?c False)) = step ?r (Resolve ?c False)"
    and d: "startKey ?c \<noteq> None \<longrightarrow>
            trace (step (step ?r (Resolve ?c False)) Pull)
              = trace ?r @ [Push (results ?c), ScanChunk (Some ?c)]"
    by blast+
  from b have b': "run [Tick, Reject ''x''] (step ?r (Resolve ?c False)) = step ?r (Resolve ?c False)"
    by simp
  from d have d': "trace (step (step ?r (Resolve ?c False)) Pull)
              = trace ?r @ [Push (results ?c), ScanChunk (Some ?c)]"
    by simp
  show ?thesis unfolding e1 e2 e3 a b' d' t by simp
qed

text \<open>
  What the pull in the Exhausted state does add to the effects is one more
  \<^verbatim>\<open>push(null)\<close>, which a stream that has ended ignores.
\<close>

lemma pull_exhausted_repeats_end:
  "phase_of r = Exhausted \<Longrightarrow> read r = r\<lparr>trace := trace r @ [PushNull]\<rparr>"
  by (auto simp: phase_of_def read_def scanChunkRecursive_def split: if_splits option.splits)


section \<open>Properties of the table schema\<close>

lemma keyInstances_all: "list_all isKey xs \<Longrightarrow> map KeyInstance (keyInstances xs) = xs"
  by (induction xs rule: keyInstances.induct) (simp_all add: isKey_def)

lemma indexInstances_all: "list_all isIndex xs \<Longrightarrow> map IndexInstance (indexInstances xs) = xs"
  by (induction xs rule: indexInstances.induct) (simp_all add: isIndex_def)

lemma validate_ok_iff:
  "validate m t = Inr () \<longleftrightarrow>
     (\<exists>n. table_name t = Some n \<and> n \<noteq> []) \<and>
     isArray (table_keys t) \<and> list_all isKey (elements (table_keys t)) \<and>
     length (filter (\<lambda>k. keyType k = HASH) (keysOf t)) = 1 \<and>
     unique m (map (\<lambda>k. attribute_name (attribute k)) (keysOf t)) \<and>
     isArray (table_indices t) \<and> list_all isIndex (elements (table_indices t)) \<and>
     unique m (map index_name (indicesOf t)) \<and>
     list_all (Key_validate m) (keysOf t) \<and>
     list_all (Index_validate m) (indicesOf t) \<and>
     (\<exists>p. table_provisionedThroughput t = Some p \<and> ProvisionedThroughput_validate m p)"
  by (auto simp: validate_def split: option.splits)

lemma validate_cases: "validate m t = Inr () \<or> (\<exists>e. validate m t = Inl e)"
  by (cases "validate m t") auto

lemma validate_TypeError:
  "validate m t = Inl TypeError \<Longrightarrow>
     length (filter (\<lambda>k. keyType k = HASH) (keysOf t)) = 1 \<and>
     unique m (map (\<lambda>k. attribute_name (attribute k)) (keysOf t)) \<and>
     unique m (map index_name (indicesOf t)) \<and>
     isArray (table_keys t) \<and> list_all isKey (elements (table_keys t))"
  by (auto simp: validate_def split: option.splits if_splits)

text \<open>
  The two uniqueness checks depend on what \<^verbatim>\<open>array.unique\<close> returns. Were its result
  truthy on every array (as an array, even an empty one, is), neither check would fire.
\<close>

lemma validate_unique_always_truthy:
  assumes "\<forall>xs. unique m xs"
  shows "validate m t \<noteq> Inl KeyNamesNotUnique \<and> validate m t \<noteq> Inl IndexNamesNotUnique"
  using assms by (simp add: validate_def split: option.splits)

text \<open>
  Were \<^verbatim>\<open>array.unique\<close> truthy exactly on the arrays without duplicates, \<^verbatim>\<open>validate\<close>
  would throw one of its own errors whenever the number of HASH keys is not one, two keys
  share an attribute name, two indices share a name, or the key array holds an element
  that is not a \<^verbatim>\<open>Key\<close>, and it would return exactly when all the checks of the schema
  hold.
\<close>

lemma validate_failures_if_unique_decides:
  assumes "\<forall>xs. unique m xs = distinct xs"
  shows
    "(length (filter (\<lambda>k. keyType k = HASH) (keysOf t)) \<noteq> 1
        \<longrightarrow> (\<exists>e. validate m t = Inl e \<and> e \<noteq> TypeError)) \<and>
     (\<not> distinct (map (\<lambda>k. attribute_name (attribute k)) (keysOf t))
        \<longrightarrow> (\<exists>e. validate m t = Inl e \<and> e \<noteq> TypeError)) \<and>
     (\<not> distinct (map index_name (indicesOf t))
        \<longrightarrow> (\<exists>e. validate m t = Inl e \<and> e \<noteq> TypeError)) \<and>
     (\<not> list_all isKey (elements (table_keys t))
        \<longrightarrow> (\<exists>e. validate m t = Inl e \<and> e \<noteq> TypeError)) \<and>
     (validate m t = Inr () \<longleftrightarrow>
        (\<exists>n. table_name t = Some n \<and> n \<noteq> []) \<and>
        isArray (table_keys t) \<and> list_all isKey (elements (table_keys t)) \<and>
        length (filter (\<lambda>k. keyType k = HASH) (keysOf t)) = 1 \<and>
        distinct (map (\<lambda>k. attribute_name (attribute k)) (keysOf t)) \<and>
        isArray (table_indices t) \<and> list_all isIndex (elements (table_indices t)) \<and>
        distinct (map index_name (indicesOf t)) \<and>
        list_all (Key_validate m) (keysOf t) \<and>
        list_all (Index_validate m) (indicesOf t) \<and>
        (\<exists>p. table_provisionedThroughput t = Some p \<and> ProvisionedThroughput_validate m p))"
proof -
  have iff: "validate m t = Inr () \<longleftrightarrow>
        (\<exists>n. table_name t = Some n \<and> n \<noteq> []) \<and>
        isArray (table_keys t) \<and> list_all isKey (elements (table_keys t)) \<and>
        length (filter (\<lambda>k. keyType k = HASH) (keysOf t)) = 1 \<and>
        distinct (map (\<lambda>k. attribute_name (attribute k)) (keysOf t)) \<and>
        isArray (table_indices t) \<and> list_all isIndex (elements (table_indices t)) \<and>
        distinct (map index_name (indicesOf t)) \<and>
        list_all (Key_validate m) (keysOf t) \<and>
        list_all (Index_validate m) (indicesOf t) \<and>
        (\<exists>p. table_provisionedThroughput t = Some p \<and> ProvisionedThroughput_validate m p)"
    using assms by (simp add: validate_ok_iff)
  have fails: "\<exists>e. validate m t = Inl e \<and> e \<noteq> TypeError"
    if "length (filter (\<lambda>k. keyType k = HASH) (keysOf t)) \<noteq> 1 \<or>
        \<not> distinct (map (\<lambda>k. attribute_name (attribute k)) (keysOf t)) \<or>
        \<not> distinct (map index_name (indicesOf t)) \<or>
        \<not> list_all isKey (elements (table_keys t))"
  proof -
    from that iff have "validate m t \<noteq> Inr ()" by blast
    with validate_cases [of m t] obtain e where e: "validate m t = Inl e" by blast
    have "e \<noteq> TypeError"
    proof
      assume "e = TypeError"
      with e validate_TypeError [of m t] assms that show False by auto
    qed
    with e show ?thesis by blast
  qed
  from fails iff show ?thesis by blast
qed

text \<open>
  Whatever \<^verbatim>\<open>array.unique\<close> returns, a number of HASH keys other than one and an element
  of the key array that is not a \<^verbatim>\<open>Key\<close> make \<^verbatim>\<open>validate\<close> throw one of its own errors.
\<close>

lemma validate_failures_whatever_unique:
  assumes "length (filter (\<lambda>k. keyType k = HASH) (keysOf t)) \<noteq> 1 \<or>
           \<not> list_all isKey (elements (table_keys t))"
  shows "\<exists>e. validate m t = Inl e \<and> e \<noteq> TypeError"
proof -
  from assms validate_ok_iff [of m t] have "validate m t \<noteq> Inr ()" by blast
  with validate_cases [of m t] obtain e where e: "validate m t = Inl e" by blast
  have "e \<noteq> TypeError"
  proof
    assume "e = TypeError"
    with e validate_TypeError [of m t] assms show False by auto
  qed
  with e show ?thesis by blast
qed

text \<open>
  C6. The code does not do what the claim says of duplicate names. With \<^verbatim>\<open>array.unique\<close>
  as the library has it, \<^verbatim>\<open>!array.unique(...)\<close> is false on every array, neither uniqueness
  check throws, and \<^verbatim>\<open>validate\<close> returns for a table whose two keys share the attribute
  name \<open>id\<close> and for a table whose two indices share the name \<open>byName\<close>.
\<close>

theorem validate_accepts_duplicate_names:
  "validate library_methods
     (sample_table [sample_key ''id'' STRING HASH, sample_key ''id'' NUMBER RANGE] []) = Inr () \<and>
   validate library_methods
     (sample_table [sample_key ''id'' STRING HASH]
        [sample_index ''byName'' GLOBAL_SECONDARY, sample_index ''byName'' LOCAL_SECONDARY]) = Inr ()"
proof -
  note defs = sample_table_def sample_key_def sample_index_def newTable_def orEmpty_def
    keysOf_def indicesOf_def elements_def isKey_def isIndex_def isArray_def
    library_methods_def sample_methods_def truthy_array_def
  have 1: "validate library_methods
     (sample_table [sample_key ''id'' STRING HASH, sample_key ''id'' NUMBER RANGE] []) = Inr ()"
    unfolding validate_ok_iff by (simp add: defs)
  have 2: "validate library_methods
     (sample_table [sample_key ''id'' STRING HASH]
        [sample_index ''byName'' GLOBAL_SECONDARY, sample_index ''byName'' LOCAL_SECONDARY]) = Inr ()"
    unfolding validate_ok_iff by (simp add: defs)
  from 1 2 show ?thesis by blast
qed

text \<open>
  C7. For every table that \<^verbatim>\<open>validate\<close> accepts, \<^verbatim>\<open>toTableSchema\<close> returns a schema whose
  field \<^verbatim>\<open>GlobalSecondaryIndexes\<close> is set exactly when the table has a global secondary
  index, and whose field \<^verbatim>\<open>LocalSecondaryIndexes\<close> is set exactly when it has a local
  one; a field that is set holds the non-empty list of the schemas of those indices, in
  their order, and is never the empty array.
\<close>

theorem toTableSchema_index_fields:
  assumes "validate m t = Inr ()"
  shows "\<exists>s. toTableSchema m t = Inr s \<and>
           (GlobalSecondaryIndexes s \<noteq> None
              \<longleftrightarrow> (\<exists>i \<in> set (indicesOf t). index_type i = GLOBAL_SECONDARY)) \<and>
           (LocalSecondaryIndexes s \<noteq> None
              \<longleftrightarrow> (\<exists>i \<in> set (indicesOf t). index_type i = LOCAL_SECONDARY)) \<and>
           GlobalSecondaryIndexes s \<noteq> Some [] \<and> LocalSecondaryIndexes s \<noteq> Some [] \<and>
           (\<forall>l. GlobalSecondaryIndexes s = Some l \<longrightarrow>
              l = map (toIndexSchema m) (filter (\<lambda>i. index_type i = GLOBAL_SECONDARY) (indicesOf t))) \<and>
           (\<forall>l. LocalSecondaryIndexes s = Some l \<longrightarrow>
              l = map (toIndexSchema m) (filter (\<lambda>i. index_type i = LOCAL_SECONDARY) (indicesOf t)))"
proof -
  from assms obtain n p where n: "table_name t = Some n"
    and p: "table_provisionedThroughput t = Some p"
    by (auto simp: validate_ok_iff)
  have e: "\<And>P xs. (filter P xs \<noteq> []) = (\<exists>x \<in> set xs. P x)"
    by (simp add: filter_empty_conv)
  show ?thesis
    using assms n p by (simp add: toTableSchema_def Let_def e)
qed

theorem toTableSchema_index_fields_witness:
  "\<exists>s. toTableSchema sample_methods
          (sample_table [sample_key ''id'' STRING HASH, sample_key ''ts'' NUMBER RANGE]
             [sample_index ''byName'' GLOBAL_SECONDARY]) = Inr s \<and>
        GlobalSecondaryIndexes s = Some [''byName''] \<and> LocalSecondaryIndexes s = None"
proof -
  note defs = sample_table_def sample_key_def sample_index_def newTable_def orEmpty_def
    keysOf_def indicesOf_def elements_def isKey_def isIndex_def isArray_def sample_methods_def
  let ?t = "sample_table [sample_key ''id'' STRING HASH, sample_key ''ts'' NUMBER RANGE]
             [sample_index ''byName'' GLOBAL_SECONDARY]"
  have v: "validate sample_methods ?t = Inr ()"
    by (simp add: validate_def defs)
  have i: "indicesOf ?t = [\<lparr>index_name = ''byName'', index_keys = [], index_type = GLOBAL_SECONDARY\<rparr>]"
    by (simp add: defs)
  from toTableSchema_index_fields [OF v] obtain s where s: "toTableSchema sample_methods ?t = Inr s"
    and g: "GlobalSecondaryIndexes s \<noteq> None
              \<longleftrightarrow> (\<exists>i \<in> set (indicesOf ?t). index_type i = GLOBAL_SECONDARY)"
    and l: "LocalSecondaryIndexes s \<noteq> None
              \<longleftrightarrow> (\<exists>i \<in> set (indicesOf ?t). index_type i = LOCAL_SECONDARY)"
    and gl: "\<forall>l. GlobalSecondaryIndexes s = Some l \<longrightarrow>
              l = map (toIndexSchema sample_methods)
                    (filter (\<lambda>i. index_type i = GLOBAL_SECONDARY) (indicesOf ?t))"
    by blast
  from l have l': "LocalSecondaryIndexes s = None" unfolding i by simp
  from g obtain x where x: "GlobalSecondaryIndexes s = Some x" unfolding i by auto
  with gl have "x = [''byName'']" unfolding i by (simp add: sample_methods_def)
  with s x l' show ?thesis by blast
qed

lemma validate_no_hash:
  "table_name t = Some n \<Longrightarrow> n \<noteq> [] \<Longrightarrow> table_keys t = Array [] \<Longrightarrow> validate m t = Inl NotOneHashKey"
  by (simp add: validate_def isArray_def elements_def keysOf_def)

lemma validate_no_name: "table_name t = None \<Longrightarrow> validate m t = Inl TableNameInvalid"
  by (simp add: validate_def)

lemma validate_empty_name: "table_name t = Some [] \<Longrightarrow> validate m t = Inl TableNameInvalid"
  by (simp add: validate_def)

text \<open>
  C8, amended. For every table constructed with an empty or omitted key set,
  \<^verbatim>\<open>validate\<close> fails: with the error of the name when the name is not a non-empty
  string, and otherwise with the error "Table must have one hash key" (invariant 3).
  There is no check that the key array is non-empty.
\<close>

theorem validate_empty_keys:
  assumes "keys = None \<or> keys = Some (Array [])"
  shows "validate m (newTable name keys indicies provisionedThroughput)
           = Inl (if (case name of None \<Rightarrow> True | Some n \<Rightarrow> length n < 1)
                  then TableNameInvalid else NotOneHashKey)"
proof -
  let ?t = "newTable name keys indicies provisionedThroughput"
  from assms have k: "table_keys ?t = Array []"
    by (auto simp: newTable_def orEmpty_def)
  have nm: "table_name ?t = name" by (simp add: newTable_def)
  show ?thesis
  proof (cases name)
    case None
    with nm validate_no_name [of ?t m] show ?thesis by simp
  next
    case (Some n)
    show ?thesis
    proof (cases "n = []")
      case True
      with Some nm validate_empty_name [of ?t m] show ?thesis by simp
    next
      case False
      with Some nm k validate_no_hash [of ?t n m] show ?thesis by simp
    qed
  qed
qed

text \<open>
  C8, as stated, fails: for a table with a name and an empty key array the error is the
  one of the HASH key count, which names invariant 3, not invariant 2.
\<close>

theorem validate_empty_keys_not_invariant_2:
  "validate sample_methods (sample_table [] []) = Inl NotOneHashKey \<and>
   invariant_of NotOneHashKey \<noteq> 2"
  using validate_no_hash [of "sample_table [] []" "''quotes''" sample_methods]
  by (simp add: sample_table_def newTable_def orEmpty_def)

theorem validate_empty_keys_witness:
  "validate sample_methods
     (newTable (Some ''quotes'') None None (Some \<lparr>throughput_read = 5, throughput_write = 5\<rparr>))
     = Inl NotOneHashKey \<and>
   validate sample_methods
     (newTable None (Some (Array [])) None (Some \<lparr>throughput_read = 5, throughput_write = 5\<rparr>))
     = Inl TableNameInvalid"
  using validate_empty_keys [of None sample_methods "Some ''quotes''" None
              "Some \<lparr>throughput_read = 5, throughput_write = 5\<rparr>"]
        validate_empty_keys [of "Some (Array [])" sample_methods None None
              "Some \<lparr>throughput_read = 5, throughput_write = 5\<rparr>"]
  by simp


lemma deref_append:
  "allocated h r \<Longrightarrow> deref (h @ [xs]) r = deref h r"
  by (cases r) (simp_all add: deref_def allocated_def nth_append)

lemma deref_mutate_other:
  "r' \<noteq> r \<Longrightarrow> deref (mutate r f h) r' = deref h r'"
  by (cases r; cases r') (simp_all add: deref_def mutate_def)

lemma length_mutate: "length (mutate r f h) = length h"
  by (cases r) (simp_all add: mutate_def)

lemma spread_fresh:
  assumes "spread h r0 = Inr (r, h')"
  shows "r = Address (length h) \<and> h' = h @ [elements (deref h r0)] \<and> deref h' r = deref h r0
         \<and> \<not> allocated h r"
  using assms
  by (cases "deref h r0") (auto simp: spread_def elements_def deref_def allocated_def)

lemma contents_after_copy:
  assumes a: "allocated h (object_keys obj)" "allocated h (object_indices obj)"
    and s: "spread h r0 = Inr (r, h')"
  shows "contents (mutate r f h') obj = contents h obj"
proof -
  from spread_fresh [OF s] have r: "\<not> allocated h r" and h': "h' = h @ [elements (deref h r0)]"
    by blast+
  from a r have ne: "object_keys obj \<noteq> r" "object_indices obj \<noteq> r" by auto
  have "deref (mutate r f h') (object_keys obj) = deref h (object_keys obj)"
    using ne(1) a(1) by (simp add: deref_mutate_other h' deref_append)
  moreover have "deref (mutate r f h') (object_indices obj) = deref h (object_indices obj)"
    using ne(2) a(2) by (simp add: deref_mutate_other h' deref_append)
  ultimately show ?thesis by (simp add: contents_def)
qed

lemma returned_spread: "returned (spread h r) = (case deref h r of Array xs \<Rightarrow> Inr (Array xs) | NotArray \<Rightarrow> Inl TypeError)"
  by (cases "deref h r") (simp_all add: returned_def spread_def deref_def)

lemma returned_after_copy:
  assumes a: "allocated h r1" and s: "spread h r0 = Inr (r, h')"
  shows "returned (spread (mutate r f h') r1) = returned (spread h r1)"
proof -
  from spread_fresh [OF s] have r: "\<not> allocated h r" and h': "h' = h @ [elements (deref h r0)]"
    by blast+
  from a r have ne: "r1 \<noteq> r" by auto
  have "deref (mutate r f h') r1 = deref h r1"
    using ne a by (simp add: deref_mutate_other h' deref_append)
  then show ?thesis by (simp add: returned_spread)
qed

text \<open>
  C10. On a table whose references point into the store, the getter \<^verbatim>\<open>keys\<close> returns
  whenever \<^verbatim>\<open>_keys\<close> is an array, and the getter \<^verbatim>\<open>indicies\<close> whenever \<^verbatim>\<open>_indices\<close> is
  one (and each raises a \<^verbatim>\<open>TypeError\<close> otherwise). What a getter returns is a reference
  that was not allocated before the call, to a new array with the elements of the
  internal one. Whatever mutation \<open>f\<close> is made through that reference, the table reads the
  same contents, so \<^verbatim>\<open>validate\<close>, \<^verbatim>\<open>toTableSchema\<close> and both getters give what they gave
  before.
\<close>

theorem getters_copy:
  assumes "allocated h (object_keys obj)" and "allocated h (object_indices obj)"
  shows "(object_keys obj = Address a \<longrightarrow>
            get_keys h obj = Inr (Address (length h), h @ [h ! a])) \<and>
         (object_indices obj = Address b \<longrightarrow>
            get_indicies h obj = Inr (Address (length h), h @ [h ! b])) \<and>
         (object_keys obj = NoArray \<longrightarrow> get_keys h obj = Inl TypeError) \<and>
         (object_indices obj = NoArray \<longrightarrow> get_indicies h obj = Inl TypeError) \<and>
         (get_keys h obj = Inr (r, h') \<or> get_indicies h obj = Inr (r, h') \<longrightarrow>
            \<not> allocated h r \<and> r \<noteq> object_keys obj \<and> r \<noteq> object_indices obj \<and>
            (get_keys h obj = Inr (r, h') \<longrightarrow> deref h' r = deref h (object_keys obj)) \<and>
            (get_indicies h obj = Inr (r, h') \<longrightarrow> deref h' r = deref h (object_indices obj)) \<and>
            contents h' obj = contents h obj \<and>
            contents (mutate r f h') obj = contents h obj \<and>
            validate m (contents (mutate r f h') obj) = validate m (contents h obj) \<and>
            toTableSchema m (contents (mutate r f h') obj) = toTableSchema m (contents h obj) \<and>
            returned (get_keys (mutate r f h') obj) = returned (get_keys h obj) \<and>
            returned (get_indicies (mutate r f h') obj) = returned (get_indicies h obj))"
proof -
  have gk0: "object_keys obj = Address a \<longrightarrow>
            get_keys h obj = Inr (Address (length h), h @ [h ! a])"
    using assms(1) by (auto simp: get_keys_def spread_def deref_def allocated_def)
  have gi0: "object_indices obj = Address b \<longrightarrow>
            get_indicies h obj = Inr (Address (length h), h @ [h ! b])"
    using assms(2) by (auto simp: get_indicies_def spread_def deref_def allocated_def)
  have nk: "object_keys obj = NoArray \<longrightarrow> get_keys h obj = Inl TypeError"
    by (simp add: get_keys_def spread_def deref_def)
  have ni: "object_indices obj = NoArray \<longrightarrow> get_indicies h obj = Inl TypeError"
    by (simp add: get_indicies_def spread_def deref_def)
  have rest: "\<not> allocated h r \<and> r \<noteq> object_keys obj \<and> r \<noteq> object_indices obj \<and>
            (get_keys h obj = Inr (r, h') \<longrightarrow> deref h' r = deref h (object_keys obj)) \<and>
            (get_indicies h obj = Inr (r, h') \<longrightarrow> deref h' r = deref h (object_indices obj)) \<and>
            contents h' obj = contents h obj \<and>
            contents (mutate r f h') obj = contents h obj \<and>
            validate m (contents (mutate r f h') obj) = validate m (contents h obj) \<and>
            toTableSchema m (contents (mutate r f h') obj) = toTableSchema m (contents h obj) \<and>
            returned (get_keys (mutate r f h') obj) = returned (get_keys h obj) \<and>
            returned (get_indicies (mutate r f h') obj) = returned (get_indicies h obj)"
    if ret: "get_keys h obj = Inr (r, h') \<or> get_indicies h obj = Inr (r, h')"
  proof -
    from ret obtain r0 where s: "spread h r0 = Inr (r, h')"
      and k: "get_keys h obj = Inr (r, h') \<longrightarrow> deref h' r = deref h (object_keys obj)"
      and i: "get_indicies h obj = Inr (r, h') \<longrightarrow> deref h' r = deref h (object_indices obj)"
      using spread_fresh [of h "object_keys obj" r h'] spread_fresh [of h "object_indices obj" r h']
      by (auto simp: get_keys_def get_indicies_def)
    from spread_fresh [OF s] have fr: "\<not> allocated h r" by blast
    with assms(1,2) have ne: "r \<noteq> object_keys obj" "r \<noteq> object_indices obj" by auto
    have c: "contents (mutate r f h') obj = contents h obj" for f
      by (rule contents_after_copy [OF assms(1,2) s])
    have "mutate r id h' = h'"
      by (cases r) (simp_all add: mutate_def)
    with c [of id] have c0: "contents h' obj = contents h obj" by simp
    have gk: "returned (get_keys (mutate r f h') obj) = returned (get_keys h obj)"
      unfolding get_keys_def by (rule returned_after_copy [OF assms(1) s])
    have gi: "returned (get_indicies (mutate r f h') obj) = returned (get_indicies h obj)"
      unfolding get_indicies_def by (rule returned_after_copy [OF assms(2) s])
    from fr ne k i c0 c [of f] gk gi show ?thesis by simp
  qed
  from gk0 gi0 nk ni rest show ?thesis by blast
qed

theorem getters_copy_witness:
  "get_keys sample_store sample_object
     = Inr (Address 2, sample_store @ [[sample_key ''id'' STRING HASH]]) \<and>
   get_indicies sample_store sample_object
     = Inr (Address 2, sample_store @ [[sample_index ''byName'' GLOBAL_SECONDARY]]) \<and>
   contents (mutate (Address 2) (\<lambda>xs. OtherValue # xs)
               (sample_store @ [[sample_key ''id'' STRING HASH]])) sample_object
     = contents sample_store sample_object \<and>
   contents (mutate (Address 2) (\<lambda>xs. [])
               (sample_store @ [[sample_index ''byName'' GLOBAL_SECONDARY]])) sample_object
     = contents sample_store sample_object \<and>
   returned (get_keys (mutate (Address 2) (\<lambda>xs. OtherValue # xs)
               (sample_store @ [[sample_key ''id'' STRING HASH]])) sample_object)
     = Inr (Array [sample_key ''id'' STRING HASH]) \<and>
   returned (get_indicies (mutate (Address 2) (\<lambda>xs. [])
               (sample_store @ [[sample_index ''byName'' GLOBAL_SECONDARY]])) sample_object)
     = Inr (Array [sample_index ''byName'' GLOBAL_SECONDARY])"
proof -
  let ?hk = "sample_store @ [[sample_key ''id'' STRING HASH]]"
  let ?hi = "sample_store @ [[sample_index ''byName'' GLOBAL_SECONDARY]]"
  have a: "allocated sample_store (object_keys sample_object)"
    "allocated sample_store (object_indices sample_object)"
    by (simp_all add: allocated_def sample_store_def sample_object_def)
  have k: "object_keys sample_object = Address 0" and i: "object_indices sample_object = Address 1"
    by (simp_all add: sample_object_def)
  have l: "length sample_store = 2" "sample_store ! 0 = [sample_key ''id'' STRING HASH]"
    "sample_store ! 1 = [sample_index ''byName'' GLOBAL_SECONDARY]"
    by (simp_all add: sample_store_def)
  note t1 = getters_copy [OF a, of 0 1 "Address 2" ?hk "\<lambda>xs. OtherValue # xs" sample_methods]
  note t2 = getters_copy [OF a, of 0 1 "Address 2" ?hi "\<lambda>xs. []" sample_methods]
  from t1 k i l have gk: "get_keys sample_store sample_object = Inr (Address 2, ?hk)"
    and gi: "get_indicies sample_store sample_object = Inr (Address 2, ?hi)"
    by simp_all
  from t1 gk have ck: "contents (mutate (Address 2) (\<lambda>xs. OtherValue # xs) ?hk) sample_object
                         = contents sample_store sample_object"
    and rk: "returned (get_keys (mutate (Address 2) (\<lambda>xs. OtherValue # xs) ?hk) sample_object)
               = returned (get_keys sample_store sample_object)"
    by blast+
  from t2 gi have ci: "contents (mutate (Address 2) (\<lambda>xs. []) ?hi) sample_object
                         = contents sample_store sample_object"
    and ri: "returned (get_indicies (mutate (Address 2) (\<lambda>xs. []) ?hi) sample_object)
               = returned (get_indicies sample_store sample_object)"
    by blast+
  have vk: "returned (get_keys sample_store sample_object) = Inr (Array [sample_key ''id'' STRING HASH])"
    unfolding gk by (simp add: returned_def deref_def sample_store_def)
  have vi: "returned (get_indicies sample_store sample_object)
              = Inr (Array [sample_index ''byName'' GLOBAL_SECONDARY])"
    unfolding gi by (simp add: returned_def deref_def sample_store_def)
  from gk gi ck ci rk ri vk vi show ?thesis by simp
qed

section \<open>Properties of the provider facade\<close>

lemma start_cached:
  "\<not> isDisposed p \<Longrightarrow> startPromise p = Some pr \<Longrightarrow> start sdk p = (Inr pr, p)"
  by (simp add: start_def)

lemma start_first:
  assumes "\<not> isDisposed p"
  shows "\<exists>pr. fst (start sdk p) = Inr pr \<and> startPromise (snd (start sdk p)) = Some pr \<and>
              \<not> isDisposed (snd (start sdk p)) \<and>
              initializations (snd (start sdk p))
                = (if startPromise p = None then initializations p + 1 else initializations p)"
  using assms by (auto simp: start_def split: option.splits sum.splits)

lemma starts_cached:
  "\<not> isDisposed p \<Longrightarrow> startPromise p = Some pr \<Longrightarrow> starts sdk n p = p"
  by (induction n) (simp_all add: start_cached)

lemma starts_Suc:
  assumes "\<not> isDisposed p"
  shows "starts sdk (Suc n) p = snd (start sdk p)"
proof -
  from start_first [OF assms, of sdk] obtain pr where
    "startPromise (snd (start sdk p)) = Some pr" "\<not> isDisposed (snd (start sdk p))" by blast
  then show ?thesis by (simp add: starts_cached)
qed

text \<open>
  C9. For a provider that is not disposed, the call of \<^verbatim>\<open>start\<close> after any number of
  earlier calls returns what the first call returns, which is a promise and not an
  error; the SDK is initialized at most once by all the calls together, not at all when
  the promise already exists, and at most once in the life of a new provider.
\<close>

theorem start_idempotent:
  assumes "\<not> isDisposed p"
  shows "fst (start sdk (starts sdk n p)) = fst (start sdk p) \<and>
         fst (start sdk p) \<noteq> Inl Disposed \<and>
         initializations (starts sdk n p) \<le> initializations p + 1 \<and>
         (startPromise p \<noteq> None \<longrightarrow> initializations (starts sdk n p) = initializations p) \<and>
         initializations (starts sdk n (newDynamoProvider c)) \<le> 1"
proof -
  from start_first [OF assms, of sdk] obtain pr where pr: "fst (start sdk p) = Inr pr"
    and sp: "startPromise (snd (start sdk p)) = Some pr"
    and nd: "\<not> isDisposed (snd (start sdk p))"
    and ini: "initializations (snd (start sdk p))
                = (if startPromise p = None then initializations p + 1 else initializations p)"
    by blast
  have 1: "fst (start sdk (starts sdk n p)) = fst (start sdk p)"
  proof (cases n)
    case 0
    then show ?thesis by simp
  next
    case (Suc k)
    with starts_Suc [OF assms, of sdk k] start_cached [OF nd sp, of sdk] pr show ?thesis by simp
  qed
  have 2: "fst (start sdk p) \<noteq> Inl Disposed" using pr by simp
  have 3: "initializations (starts sdk n p) \<le> initializations p + 1"
    and 4: "startPromise p \<noteq> None \<longrightarrow> initializations (starts sdk n p) = initializations p"
    using starts_Suc [OF assms, of sdk] ini by (cases n; simp)+
  have nd0: "\<not> isDisposed (newDynamoProvider c :: ('a, 'b) DynamoProvider)"
    by (simp add: newDynamoProvider_def)
  from start_first [OF nd0, of sdk]
  have "initializations (snd (start sdk (newDynamoProvider c))) = 1"
    by (auto simp: newDynamoProvider_def)
  with starts_Suc [OF nd0, of sdk]
  have 5: "initializations (starts sdk n (newDynamoProvider c)) \<le> 1"
    by (cases n) (simp_all add: newDynamoProvider_def)
  from 1 2 3 4 5 show ?thesis by blast
qed

theorem start_idempotent_witness:
  "fst (start sample_sdk (starts sample_sdk 3 (newDynamoProvider sample_configuration)))
     = Inr (Fulfilled True) \<and>
   initializations (starts sample_sdk 3 (newDynamoProvider sample_configuration)) = 1"
proof -
  let ?p = "newDynamoProvider sample_configuration :: (string, string) DynamoProvider"
  have nd: "\<not> isDisposed ?p" by (simp add: newDynamoProvider_def)
  have f: "fst (start sample_sdk ?p) = Inr (Fulfilled True)"
    by (simp add: start_def newDynamoProvider_def sample_sdk_def sample_configuration_def)
  have i: "initializations (starts sample_sdk 3 ?p) = 1"
    by (simp add: numeral_3_eq_3 start_def newDynamoProvider_def sample_sdk_def
          sample_configuration_def)
  from start_idempotent [OF nd, of sample_sdk 3 sample_configuration] f i show ?thesis by simp
qed


section \<open>Properties of the serializers\<close>

lemma orFail_Some: "orFail (Some v) = Inr v"
  by (simp add: orFail_def)

lemma andThen_Inr: "andThen (Inr v) f = f v"
  by (simp add: andThen_def)

text \<open>
  C1. Provided the libraries are lossless (parsing undoes \<^verbatim>\<open>JSON.stringify\<close>, decoding
  undoes the encoding of a string into bytes, decompression undoes compression and
  decryption undoes encryption under the same type and key), every serializer returns the
  value it was given when its \<^verbatim>\<open>deserialize\<close> is applied to the result of its
  \<^verbatim>\<open>serialize\<close>: the string serializer on every string, the JSON and the compressed JSON
  serializer on every JSON value, the two encrypted serializers on every value when the
  attribute has an encryptor. The layers are undone in the reverse of the order they were
  applied in. Without an encryptor the encrypted serializers fail with a configuration
  error.
\<close>

theorem serializers_roundtrip:
  assumes "lossless c"
  shows
    "andThen (StringSerializer_serialize s) StringSerializer_deserialize = Inr s \<and>
     andThen (JsonSerializer_serialize c v) (JsonSerializer_deserialize c) = Inr v \<and>
     andThen (CompressedJsonSerializer_serialize c v) (CompressedJsonSerializer_deserialize c) = Inr v \<and>
     (attribute_encryptor a \<noteq> None \<longrightarrow>
        andThen (EncryptedJsonSerializer_serialize c a v) (EncryptedJsonSerializer_deserialize c a) = Inr v \<and>
        andThen (EncryptedStringSerializer_serialize c a s) (EncryptedStringSerializer_deserialize c a) = Inr s) \<and>
     (attribute_encryptor a = None \<longrightarrow>
        EncryptedJsonSerializer_serialize c a v = Inl ConfigurationError \<and>
        EncryptedStringSerializer_serialize c a s = Inl ConfigurationError)"
proof -
  from assms have p: "\<And>v. parse c (stringify c v) = Some v"
    and b: "\<And>s. fromBuffer c (toBuffer c s) = Some s"
    and z: "\<And>b. decompress c (compress c b) = Some b"
    and e: "\<And>t k b. decrypt c t k (encrypt c t k b) = Some b"
    by (simp_all add: lossless_def)
  have 1: "andThen (StringSerializer_serialize s) StringSerializer_deserialize = Inr s"
    by (simp add: StringSerializer_serialize_def StringSerializer_deserialize_def andThen_Inr)
  have 2: "andThen (JsonSerializer_serialize c v) (JsonSerializer_deserialize c) = Inr v"
    by (simp add: JsonSerializer_serialize_def JsonSerializer_deserialize_def andThen_Inr
          orFail_Some p)
  have 3: "andThen (CompressedJsonSerializer_serialize c v) (CompressedJsonSerializer_deserialize c) = Inr v"
    by (simp add: CompressedJsonSerializer_serialize_def CompressedJsonSerializer_deserialize_def
          andThen_Inr orFail_Some p b z)
  have 4: "andThen (EncryptedJsonSerializer_serialize c a v) (EncryptedJsonSerializer_deserialize c a) = Inr v"
    if "attribute_encryptor a \<noteq> None"
    using that
    by (auto simp: EncryptedJsonSerializer_serialize_def EncryptedJsonSerializer_deserialize_def
          getEncryptor_def andThen_Inr orFail_Some p b z e)
  have 5: "andThen (EncryptedStringSerializer_serialize c a s) (EncryptedStringSerializer_deserialize c a) = Inr s"
    if "attribute_encryptor a \<noteq> None"
    using that
    by (auto simp: EncryptedStringSerializer_serialize_def EncryptedStringSerializer_deserialize_def
          andThen_Inr orFail_Some b e)
  have 6: "EncryptedJsonSerializer_serialize c a v = Inl ConfigurationError"
    "EncryptedStringSerializer_serialize c a s = Inl ConfigurationError"
    if "attribute_encryptor a = None"
    using that
    by (simp_all add: EncryptedJsonSerializer_serialize_def EncryptedStringSerializer_serialize_def
          getEncryptor_def)
  from 1 2 3 4 5 6 show ?thesis by blast
qed

lemma unit_split: "push_bit 8 (ucast (ucast (drop_bit 8 u :: 16 word) :: 8 word)) OR ucast (ucast u :: 8 word) = (u :: 16 word)"
  by (rule bit_word_eqI) (auto simp: bit_simps)

lemma units_bytes: "units (bytes s) = Some s"
  by (induction s) (simp_all add: bytes_def unit_split)

lemma xor_twice: "map (\<lambda>x. x XOR m) (map (\<lambda>x. x XOR m) b) = (b :: 8 word list)"
  by (induction b) (simp_all add: xor.assoc)

lemma lossless_sample: "lossless sample_codec"
  by (simp add: lossless_def sample_codec_def units_bytes xor_twice del: map_map)

theorem serializers_roundtrip_witness:
  "andThen (EncryptedStringSerializer_serialize sample_codec sample_attribute [97, 98, 99, 8364])
     (EncryptedStringSerializer_deserialize sample_codec sample_attribute) = Inr [97, 98, 99, 8364] \<and>
   andThen (EncryptedJsonSerializer_serialize sample_codec sample_attribute [97, 98, 99, 8364])
     (EncryptedJsonSerializer_deserialize sample_codec sample_attribute) = Inr [97, 98, 99, 8364] \<and>
   EncryptedStringSerializer_serialize sample_codec sample_attribute [97, 98, 99, 8364]
     = Inr (B [213, 180, 213, 183, 213, 182, 245, 121])"
proof -
  have e: "attribute_encryptor sample_attribute \<noteq> None" by (simp add: sample_attribute_def)
  have s: "EncryptedStringSerializer_serialize sample_codec sample_attribute [97, 98, 99, 8364]
     = Inr (B [213, 180, 213, 183, 213, 182, 245, 121])"
    by (simp add: EncryptedStringSerializer_serialize_def sample_codec_def sample_attribute_def
          bytes_def mask_of_def)
  from serializers_roundtrip [OF lossless_sample, of "[97, 98, 99, 8364]" "[97, 98, 99, 8364]" sample_attribute] e s
  show ?thesis by simp
qed

end
